theory Spec2Isabelle
  imports Main
begin

section \<open>Python strings\<close>

text \<open>
  A Python \<open>str\<close> is a sequence of Unicode code points. It is modelled as the list of
  its code points, each a natural number (below \<open>0x110000\<close> in Python; no function
  below creates a code point that is not in its input or in a literal of the source).
  \<open>str_of\<close> reads an ASCII literal of the source as such a sequence.
\<close>

type_synonym codepoint = nat
type_synonym pystr = "codepoint list"

definition str_of :: "string \<Rightarrow> pystr" where
  "str_of s = map of_char s"

text \<open>
  \<open>str.isspace\<close> on one code point, as CPython decides it: the ASCII table
  (\<open>\t \n \v \f \r\<close>, \<open>0x1C..0x1F\<close>, space) and the Unicode white space beyond it.
\<close>

definition isspace :: "codepoint \<Rightarrow> bool" where
  "isspace c \<longleftrightarrow>
     (9 \<le> c \<and> c \<le> 13) \<or> (28 \<le> c \<and> c \<le> 32) \<or> c = 133 \<or> c = 160 \<or> c = 5760 \<or>
     (8192 \<le> c \<and> c \<le> 8202) \<or> c = 8232 \<or> c = 8233 \<or> c = 8239 \<or> c = 8287 \<or> c = 12288"

definition lstrip :: "pystr \<Rightarrow> pystr" where
  "lstrip s = dropWhile isspace s"

definition rstrip :: "pystr \<Rightarrow> pystr" where
  "rstrip s = rev (dropWhile isspace (rev s))"

text \<open>\<open>s.strip()\<close> with no argument: white space is removed at both ends.\<close>

definition strip :: "pystr \<Rightarrow> pystr" where
  "strip s = rstrip (lstrip s)"

text \<open>\<open>str(n)\<close> for an \<open>int\<close>: the decimal digits, with a minus sign below zero.\<close>

fun str_nat :: "nat \<Rightarrow> pystr" where
  "str_nat n = (if n < 10 then [48 + n] else str_nat (n div 10) @ [48 + n mod 10])"

definition str_int :: "int \<Rightarrow> pystr" where
  "str_int i = (if i < 0 then 45 # str_nat (nat (- i)) else str_nat (nat i))"

text \<open>\<open>sep.join(xs)\<close>.\<close>

fun join :: "pystr \<Rightarrow> pystr list \<Rightarrow> pystr" where
  "join sep [] = []"
| "join sep [x] = x"
| "join sep (x # y # ys) = x @ sep @ join sep (y # ys)"

text \<open>
  \<open>s.replace(old, new)\<close> where \<open>old\<close> is one character, the only use the source makes
  of it: every occurrence of the character is replaced.
\<close>

definition replace_char :: "codepoint \<Rightarrow> pystr \<Rightarrow> pystr \<Rightarrow> pystr" where
  "replace_char old new s = concat (map (\<lambda>c. if c = old then new else [c]) s)"

text \<open>
  \<open>s.encode("utf-8")\<close>: the bytes of the text, or \<open>UnicodeEncodeError\<close> when the text
  holds a surrogate code point.
\<close>

datatype error = MissingPermissions | UnicodeEncodeError

definition encode_codepoint :: "codepoint \<Rightarrow> nat list option" where
  "encode_codepoint c =
     (if c < 128 then Some [c]
      else if c < 2048 then Some [192 + c div 64, 128 + c mod 64]
      else if 55296 \<le> c \<and> c \<le> 57343 then None
      else if c < 65536 then Some [224 + c div 4096, 128 + (c div 64) mod 64, 128 + c mod 64]
      else Some [240 + c div 262144, 128 + (c div 4096) mod 64, 128 + (c div 64) mod 64,
                 128 + c mod 64])"

fun encode_utf8 :: "pystr \<Rightarrow> error + nat list" where
  "encode_utf8 [] = Inr []"
| "encode_utf8 (c # cs) =
     (case encode_codepoint c of
        None \<Rightarrow> Inl UnicodeEncodeError
      | Some bs \<Rightarrow> (case encode_utf8 cs of Inl e \<Rightarrow> Inl e | Inr rest \<Rightarrow> Inr (bs @ rest)))"

section \<open>The entry store\<close>

text \<open>
  An entry is the dictionary \<open>on_submit\<close> builds: four keys, each with a string value.
\<close>

record entry =
  discord_user_id :: pystr
  discord_tag :: pystr
  uid :: pystr
  timestamp :: pystr

text \<open>
  The state of the program is the file \<open>entries.json\<close>: absent (\<open>None\<close>), or holding a
  sequence of entries. For the handlers the file is identified with the sequence that
  \<open>json.load\<close> reads from it, which is the sequence \<open>json.dump\<close> wrote; the text of
  the file, its encoding and its decoding are modelled in the section on JSON text, where
  this identification is proved for entries of Unicode scalar values.
\<close>

type_synonym entries_file = "entry list option"

text \<open>\<open>load_entries\<close> creates the file with the empty sequence when it is absent, then reads it.\<close>

definition load_entries :: "entries_file \<Rightarrow> entry list \<times> entries_file" where
  "load_entries f =
     (let f1 = (if f = None then Some [] else f)
      in (case f1 of Some es \<Rightarrow> (es, f1) | None \<Rightarrow> ([], f1)))"

definition save_entries :: "entry list \<Rightarrow> entries_file \<Rightarrow> entries_file" where
  "save_entries entries f = Some entries"

text \<open>The sequence a reader of the store finds.\<close>

definition stored :: "entries_file \<Rightarrow> entry list" where
  "stored f = fst (load_entries f)"

section \<open>The submission handler\<close>

text \<open>
  What \<open>UIDModal.on_submit\<close> reads from its environment: the submitting user's id and
  display string, the text of the form field, and the clock
  (\<open>datetime.utcnow().isoformat()\<close>).
\<close>

record interaction =
  user_id :: int
  user_str :: pystr
  form_value :: pystr
  utcnow_isoformat :: pystr

text \<open>The three messages the handler sends; each is sent with \<open>ephemeral=True\<close>.\<close>

datatype outcome = UidAlreadyUsed | UserAlreadyEntered | Entered

record message =
  content :: pystr
  ephemeral :: bool

fun send_message :: "outcome \<Rightarrow> message" where
  "send_message UidAlreadyUsed =
     \<lparr>content = 10060 # str_of '' This UID has already been used to enter the giveaway.'',
      ephemeral = True\<rparr>"
| "send_message UserAlreadyEntered =
     \<lparr>content = 10060 # str_of '' You have already entered the giveaway.'',
      ephemeral = True\<rparr>"
| "send_message Entered =
     \<lparr>content = 9989 # str_of '' You have successfully entered the giveaway!'',
      ephemeral = True\<rparr>"

definition on_submit :: "interaction \<Rightarrow> entries_file \<Rightarrow> outcome \<times> entries_file" where
  "on_submit i f =
     (let uid_value = strip (form_value i);
          (entries, f1) = load_entries f
      in if list_ex (\<lambda>e. uid e = uid_value) entries then (UidAlreadyUsed, f1)
         else if list_ex (\<lambda>e. discord_user_id e = str_int (user_id i)) entries
           then (UserAlreadyEntered, f1)
         else
           (let entry = \<lparr>discord_user_id = str_int (user_id i),
                          discord_tag = user_str i,
                          uid = uid_value,
                          timestamp = utcnow_isoformat i\<rparr>
            in (Entered, save_entries (entries @ [entry]) f1)))"


section \<open>The export command\<close>

record attachment =
  filename :: pystr
  data :: "nat list"

record ctx_reply =
  reply_content :: pystr
  reply_file :: "attachment option"

definition header :: pystr where
  "header = str_of ''discordUserId,discordTag,uid,timestamp'' @ [10]"

definition quoted :: "pystr \<Rightarrow> pystr" where
  "quoted s = [34] @ s @ [34]"

definition row :: "entry \<Rightarrow> pystr" where
  "row e =
     (let safe_uid = replace_char 34 [34, 34] (uid e)
      in join [44] [quoted (discord_user_id e), quoted (discord_tag e), quoted safe_uid,
                    quoted (timestamp e)])"

definition csv_content :: "entry list \<Rightarrow> pystr" where
  "csv_content entries = header @ join [10] (map row entries)"

text \<open>
  \<open>export_entries\<close>, behind its \<open>has_permissions(administrator=True)\<close> check: the reply
  (or the error raised) and the file afterwards.
\<close>

definition export_entries :: "bool \<Rightarrow> entries_file \<Rightarrow> (error + ctx_reply) \<times> entries_file" where
  "export_entries administrator f =
     (if \<not> administrator then (Inl MissingPermissions, f)
      else
        (let (entries, f1) = load_entries f
         in if entries = [] then
              (Inr \<lparr>reply_content = 9888 # str_of '' No entries found.'', reply_file = None\<rparr>, f1)
            else
              (case encode_utf8 (csv_content entries) of
                 Inl e \<Rightarrow> (Inl e, f1)
               | Inr csv_bytes \<Rightarrow>
                   (Inr \<lparr>reply_content =
                           128193 # str_of '' Exported **'' @ str_nat (length entries)
                             @ str_of ''** entries.'',
                         reply_file = Some \<lparr>filename = str_of ''entries.csv'', data = csv_bytes\<rparr>\<rparr>,
                    f1))))"

section \<open>The file as JSON text\<close>

text \<open>
  \<open>save_entries\<close> writes the store with \<open>json.dump(entries, f, indent=2)\<close> and
  \<open>load_entries\<close> reads it with \<open>json.load(f)\<close>. This section models both on the text
  of the file, as CPython's \<open>json\<close> module behaves with the arguments the source gives
  (\<open>ensure_ascii\<close> left at its default). A JSON value is an element of \<open>json\<close>; a
  dictionary is the list of its items in insertion order, and a number is kept as the
  text of its numeral.
\<close>

datatype json =
  JNull | JBool bool | JNumber pystr | JString pystr | JArray "json list"
  | JObject "(pystr \<times> json) list"

text \<open>
  The decoder raises \<open>JSONDecodeError\<close> on a malformed text. Its descent into nested
  values is bounded by the length of the text; \<open>RecursionError\<close> is the answer beyond
  that bound.
\<close>

datatype json_error = JSONDecodeError | RecursionError

subsection \<open>Encoding\<close>

text \<open>
  \<open>encode_basestring_ascii\<close>: a quote, a backslash and the control characters with a
  short escape are written with it, the printable ASCII characters as they are, every
  other character as \<open>\uXXXX\<close> with lower-case digits, a character beyond the basic
  plane as the two escapes of its surrogate pair.
\<close>

definition hex_digit :: "nat \<Rightarrow> codepoint" where
  "hex_digit d = (if d < 10 then 48 + d else 87 + d)"

definition hex4 :: "nat \<Rightarrow> pystr" where
  "hex4 n = [hex_digit (n div 4096 mod 16), hex_digit (n div 256 mod 16),
             hex_digit (n div 16 mod 16), hex_digit (n mod 16)]"

definition escape_char :: "codepoint \<Rightarrow> pystr" where
  "escape_char c =
     (if c = 34 then [92, 34]
      else if c = 92 then [92, 92]
      else if c = 10 then [92, 110]
      else if c = 13 then [92, 114]
      else if c = 9 then [92, 116]
      else if c = 8 then [92, 98]
      else if c = 12 then [92, 102]
      else if 32 \<le> c \<and> c \<le> 126 then [c]
      else if c < 65536 then [92, 117] @ hex4 c
      else [92, 117] @ hex4 (55296 + (c - 65536) div 1024 mod 1024) @
           [92, 117] @ hex4 (56320 + (c - 65536) mod 1024))"

definition encode_basestring_ascii :: "pystr \<Rightarrow> pystr" where
  "encode_basestring_ascii s = [34] @ concat (map escape_char s) @ [34]"

text \<open>
  \<open>iterencode\<close> with \<open>indent=2\<close>: every item of a non-empty list or dictionary on a line
  of its own, indented by two spaces per level; items separated by a comma, a key from
  its value by a colon and a space.
\<close>

definition newline_indent :: "nat \<Rightarrow> pystr" where
  "newline_indent level = 10 # replicate (2 * level) 32"

fun iterencode :: "nat \<Rightarrow> json \<Rightarrow> pystr" where
  "iterencode level JNull = str_of ''null''"
| "iterencode level (JBool b) = (if b then str_of ''true'' else str_of ''false'')"
| "iterencode level (JNumber t) = t"
| "iterencode level (JString s) = encode_basestring_ascii s"
| "iterencode level (JArray xs) =
     (if xs = [] then str_of ''[]''
      else [91] @ newline_indent (Suc level) @
           join (44 # newline_indent (Suc level)) (map (iterencode (Suc level)) xs) @
           newline_indent level @ [93])"
| "iterencode level (JObject kvs) =
     (if kvs = [] then str_of ''{}''
      else [123] @ newline_indent (Suc level) @
           join (44 # newline_indent (Suc level))
             (map (\<lambda>kv. encode_basestring_ascii (fst kv) @ [58, 32] @
                        iterencode (Suc level) (snd kv)) kvs) @
           newline_indent level @ [125])"


subsection \<open>Decoding\<close>

definition is_whitespace :: "codepoint \<Rightarrow> bool" where
  "is_whitespace c \<longleftrightarrow> c = 32 \<or> c = 9 \<or> c = 10 \<or> c = 13"

definition skip_whitespace :: "pystr \<Rightarrow> pystr" where
  "skip_whitespace s = dropWhile is_whitespace s"

definition hex_value :: "codepoint \<Rightarrow> nat option" where
  "hex_value c =
     (if 48 \<le> c \<and> c \<le> 57 then Some (c - 48)
      else if 97 \<le> c \<and> c \<le> 102 then Some (c - 87)
      else if 65 \<le> c \<and> c \<le> 70 then Some (c - 55)
      else None)"

definition decode_uXXXX :: "codepoint \<Rightarrow> codepoint \<Rightarrow> codepoint \<Rightarrow> codepoint \<Rightarrow> nat option" where
  "decode_uXXXX a b c d =
     (case (hex_value a, hex_value b, hex_value c, hex_value d) of
        (Some h3, Some h2, Some h1, Some h0) \<Rightarrow> Some (((h3 * 16 + h2) * 16 + h1) * 16 + h0)
      | _ \<Rightarrow> None)"

definition backslash :: "codepoint \<Rightarrow> codepoint option" where
  "backslash esc =
     (if esc = 34 then Some 34
      else if esc = 92 then Some 92
      else if esc = 47 then Some 47
      else if esc = 98 then Some 8
      else if esc = 102 then Some 12
      else if esc = 110 then Some 10
      else if esc = 114 then Some 13
      else if esc = 116 then Some 9
      else None)"

text \<open>
  \<open>scanstring\<close> reads a string after its opening quote, up to the closing quote: the
  characters read, and the rest of the text. A \<open>\uXXXX\<close> escape of a high surrogate
  followed by one of a low surrogate is read as one character.
\<close>

definition push_char :: "codepoint \<Rightarrow> json_error + pystr \<times> pystr \<Rightarrow> json_error + pystr \<times> pystr" where
  "push_char c r = (case r of Inl e \<Rightarrow> Inl e | Inr (v, rest) \<Rightarrow> Inr (c # v, rest))"

fun scanstring :: "pystr \<Rightarrow> json_error + pystr \<times> pystr" where
  "scanstring [] = Inl JSONDecodeError"
| "scanstring (c # cs) =
     (if c = 34 then Inr ([], cs)
      else if c = 92 then
        (case cs of
           [] \<Rightarrow> Inl JSONDecodeError
         | esc # cs1 \<Rightarrow>
             if esc \<noteq> 117 then
               (case backslash esc of
                  None \<Rightarrow> Inl JSONDecodeError
                | Some ch \<Rightarrow> push_char ch (scanstring cs1))
             else
               (case cs1 of
                  a # b # c # d # r \<Rightarrow>
                    (case decode_uXXXX a b c d of
                       None \<Rightarrow> Inl JSONDecodeError
                     | Some uni \<Rightarrow>
                         if 55296 \<le> uni \<and> uni \<le> 56319 then
                           (case r of
                              x # y # r1 \<Rightarrow>
                                if x = 92 \<and> y = 117 then
                                  (case r1 of
                                     a2 # b2 # c2 # d2 # r2 \<Rightarrow>
                                       (case decode_uXXXX a2 b2 c2 d2 of
                                          None \<Rightarrow> Inl JSONDecodeError
                                        | Some uni2 \<Rightarrow>
                                            if 56320 \<le> uni2 \<and> uni2 \<le> 57343 then
                                              push_char
                                                (65536 + ((uni - 55296) * 1024 + (uni2 - 56320)))
                                                (scanstring r2)
                                            else push_char uni (scanstring r))
                                   | _ \<Rightarrow> Inl JSONDecodeError)
                                else push_char uni (scanstring r)
                            | _ \<Rightarrow> push_char uni (scanstring r))
                         else push_char uni (scanstring r))
                | _ \<Rightarrow> Inl JSONDecodeError))
      else if c < 32 then Inl JSONDecodeError
      else push_char c (scanstring cs))"

text \<open>
  \<open>match_number\<close> is the decoder's pattern for a numeral: an optional minus sign, an
  integer part without leading zero, an optional fraction and an optional exponent.
\<close>

definition is_digit :: "codepoint \<Rightarrow> bool" where
  "is_digit c \<longleftrightarrow> 48 \<le> c \<and> c \<le> 57"

definition match_number :: "pystr \<Rightarrow> (pystr \<times> pystr) option" where
  "match_number s =
     (let (sign, s1) = (case s of c # r \<Rightarrow> if c = 45 then ([45], r) else ([], s) | [] \<Rightarrow> ([], s))
      in case s1 of
           [] \<Rightarrow> None
         | d # r \<Rightarrow>
             if \<not> is_digit d then None
             else
               (let (integer, s2) =
                      (if d = 48 then ([d], r) else (d # takeWhile is_digit r, dropWhile is_digit r));
                    (frac, s3) =
                      (case s2 of
                         p # r2 \<Rightarrow>
                           if p = 46 \<and> takeWhile is_digit r2 \<noteq> []
                           then (p # takeWhile is_digit r2, dropWhile is_digit r2)
                           else ([], s2)
                       | [] \<Rightarrow> ([], s2));
                    (exp, s4) =
                      (case s3 of
                         e # r3 \<Rightarrow>
                           if e = 101 \<or> e = 69 then
                             (let (sg, r4) =
                                    (case r3 of
                                       g # r5 \<Rightarrow> if g = 43 \<or> g = 45 then ([g], r5) else ([], r3)
                                     | [] \<Rightarrow> ([], r3))
                              in if takeWhile is_digit r4 \<noteq> []
                                 then (e # sg @ takeWhile is_digit r4, dropWhile is_digit r4)
                                 else ([], s3))
                           else ([], s3)
                       | [] \<Rightarrow> ([], s3))
                in Some (sign @ integer @ frac @ exp, s4)))"

definition starts_with :: "pystr \<Rightarrow> pystr \<Rightarrow> bool" where
  "starts_with s p \<longleftrightarrow> take (length p) s = p"

definition scan_constant :: "pystr \<Rightarrow> json_error + json \<times> pystr" where
  "scan_constant s =
     (if starts_with s (str_of ''null'') then Inr (JNull, drop 4 s)
      else if starts_with s (str_of ''true'') then Inr (JBool True, drop 4 s)
      else if starts_with s (str_of ''false'') then Inr (JBool False, drop 5 s)
      else
        (case match_number s of
           Some (t, r) \<Rightarrow> Inr (JNumber t, r)
         | None \<Rightarrow>
             if starts_with s (str_of ''NaN'') then Inr (JNumber (str_of ''NaN''), drop 3 s)
             else if starts_with s (str_of ''Infinity'')
               then Inr (JNumber (str_of ''Infinity''), drop 8 s)
             else if starts_with s (str_of ''-Infinity'')
               then Inr (JNumber (str_of ''-Infinity''), drop 9 s)
             else Inl JSONDecodeError))"

text \<open>
  \<open>scan_once\<close> reads one value at the head of the text; \<open>parse_array\<close> the items of a
  non-empty list after its opening bracket, \<open>parse_object\<close> the items of a non-empty
  dictionary after its opening brace. The first argument bounds the descent.
\<close>

fun scan_once :: "nat \<Rightarrow> pystr \<Rightarrow> json_error + json \<times> pystr"
  and parse_array :: "nat \<Rightarrow> pystr \<Rightarrow> json_error + json list \<times> pystr"
  and parse_object :: "nat \<Rightarrow> pystr \<Rightarrow> json_error + (pystr \<times> json) list \<times> pystr"
where
  "scan_once 0 s = Inl RecursionError"
| "scan_once (Suc n) s =
     (case s of
        [] \<Rightarrow> Inl JSONDecodeError
      | c # cs \<Rightarrow>
          if c = 34 then
            (case scanstring cs of Inl e \<Rightarrow> Inl e | Inr (v, r) \<Rightarrow> Inr (JString v, r))
          else if c = 123 then
            (case skip_whitespace cs of
               [] \<Rightarrow> Inl JSONDecodeError
             | d # r \<Rightarrow>
                 if d = 125 then Inr (JObject [], r)
                 else
                   (case parse_object n (d # r) of
                      Inl e \<Rightarrow> Inl e
                    | Inr (kvs, r1) \<Rightarrow> Inr (JObject kvs, r1)))
          else if c = 91 then
            (case skip_whitespace cs of
               [] \<Rightarrow> Inl JSONDecodeError
             | d # r \<Rightarrow>
                 if d = 93 then Inr (JArray [], r)
                 else
                   (case parse_array n (d # r) of
                      Inl e \<Rightarrow> Inl e
                    | Inr (xs, r1) \<Rightarrow> Inr (JArray xs, r1)))
          else scan_constant s)"
| "parse_array 0 s = Inl RecursionError"
| "parse_array (Suc n) s =
     (case scan_once n s of
        Inl e \<Rightarrow> Inl e
      | Inr (x, r) \<Rightarrow>
          (case skip_whitespace r of
             [] \<Rightarrow> Inl JSONDecodeError
           | d # r1 \<Rightarrow>
               if d = 93 then Inr ([x], r1)
               else if d = 44 then
                 (case parse_array n (skip_whitespace r1) of
                    Inl e \<Rightarrow> Inl e
                  | Inr (xs, r2) \<Rightarrow> Inr (x # xs, r2))
               else Inl JSONDecodeError))"
| "parse_object 0 s = Inl RecursionError"
| "parse_object (Suc n) s =
     (case s of
        [] \<Rightarrow> Inl JSONDecodeError
      | q # cs \<Rightarrow>
          if q \<noteq> 34 then Inl JSONDecodeError
          else
            (case scanstring cs of
               Inl e \<Rightarrow> Inl e
             | Inr (k, r) \<Rightarrow>
                 (case skip_whitespace r of
                    [] \<Rightarrow> Inl JSONDecodeError
                  | colon # r1 \<Rightarrow>
                      if colon \<noteq> 58 then Inl JSONDecodeError
                      else
                        (case scan_once n (skip_whitespace r1) of
                           Inl e \<Rightarrow> Inl e
                         | Inr (v, r2) \<Rightarrow>
                             (case skip_whitespace r2 of
                                [] \<Rightarrow> Inl JSONDecodeError
                              | d # r3 \<Rightarrow>
                                  if d = 125 then Inr ([(k, v)], r3)
                                  else if d = 44 then
                                    (case parse_object n (skip_whitespace r3) of
                                       Inl e \<Rightarrow> Inl e
                                     | Inr (kvs, r4) \<Rightarrow> Inr ((k, v) # kvs, r4))
                                  else Inl JSONDecodeError)))))"

text \<open>
  \<open>json.loads\<close>: one value, with white space allowed around it and nothing else after it.
\<close>

definition json_loads :: "pystr \<Rightarrow> json_error + json" where
  "json_loads s =
     (if starts_with s [65279] then Inl JSONDecodeError
      else
        (case scan_once (Suc (length s)) (skip_whitespace s) of
           Inl e \<Rightarrow> Inl e
         | Inr (obj, r) \<Rightarrow> if skip_whitespace r = [] then Inr obj else Inl JSONDecodeError))"


subsection \<open>Entries as JSON values, and the file\<close>

text \<open>
  \<open>json_of_entry\<close> is the dictionary \<open>on_submit\<close> builds, with its keys in the order of
  the source. \<open>scalar\<close> holds of a string of Unicode scalar values: code points below
  \<open>0x110000\<close> that are no surrogates.
\<close>

definition json_of_entry :: "entry \<Rightarrow> json" where
  "json_of_entry e =
     JObject [(str_of ''discord_user_id'', JString (discord_user_id e)),
              (str_of ''discord_tag'', JString (discord_tag e)),
              (str_of ''uid'', JString (uid e)),
              (str_of ''timestamp'', JString (timestamp e))]"

definition scalar :: "pystr \<Rightarrow> bool" where
  "scalar s \<longleftrightarrow> list_all (\<lambda>c. c < 1114112 \<and> \<not> (55296 \<le> c \<and> c \<le> 57343)) s"

text \<open>
  Reading an entry back from a JSON value: \<open>get_str\<close> is the subscript \<open>e[k]\<close> on a
  dictionary built from the decoder's items (the last item of a key wins), for a value
  that is a string.
\<close>

definition get_str :: "(pystr \<times> json) list \<Rightarrow> pystr \<Rightarrow> pystr option" where
  "get_str kvs k = (case map_of (rev kvs) k of Some (JString s) \<Rightarrow> Some s | _ \<Rightarrow> None)"

definition entry_of_json :: "json \<Rightarrow> entry option" where
  "entry_of_json j =
     (case j of
        JObject kvs \<Rightarrow>
          (case get_str kvs (str_of ''discord_user_id'') of
             None \<Rightarrow> None
           | Some a \<Rightarrow>
               (case get_str kvs (str_of ''discord_tag'') of
                  None \<Rightarrow> None
                | Some b \<Rightarrow>
                    (case get_str kvs (str_of ''uid'') of
                       None \<Rightarrow> None
                     | Some c \<Rightarrow>
                         (case get_str kvs (str_of ''timestamp'') of
                            None \<Rightarrow> None
                          | Some d \<Rightarrow>
                              Some \<lparr>discord_user_id = a, discord_tag = b, uid = c,
                                    timestamp = d\<rparr>))))
      | _ \<Rightarrow> None)"

definition entries_of_json :: "json \<Rightarrow> entry list option" where
  "entries_of_json j = (case j of JArray xs \<Rightarrow> those (map entry_of_json xs) | _ \<Rightarrow> None)"

definition json_of_entries :: "entry list \<Rightarrow> json" where
  "json_of_entries entries = JArray (map json_of_entry entries)"

text \<open>
  The file as its text: \<open>load_entries\<close> writes \<open>[]\<close> when the file is absent, then decodes
  the text; \<open>save_entries\<close> replaces the text by the encoding of its argument.
\<close>

type_synonym text_file = "pystr option"

definition load_entries_text :: "text_file \<Rightarrow> (json_error + json) \<times> text_file" where
  "load_entries_text f =
     (let f1 = (if f = None then Some (str_of ''[]'') else f)
      in (case f1 of Some t \<Rightarrow> (json_loads t, f1) | None \<Rightarrow> (Inl JSONDecodeError, f1)))"

definition save_entries_text :: "json \<Rightarrow> text_file \<Rightarrow> text_file" where
  "save_entries_text entries f = Some (iterencode 0 entries)"

text \<open>Auxiliary notions for the proofs about the decoder.\<close>

definition entry_members :: "entry \<Rightarrow> (pystr \<times> pystr) list" where
  "entry_members e =
     [(str_of ''discord_user_id'', discord_user_id e), (str_of ''discord_tag'', discord_tag e),
      (str_of ''uid'', uid e), (str_of ''timestamp'', timestamp e)]"

definition scalar_entry :: "entry \<Rightarrow> bool" where
  "scalar_entry e \<longleftrightarrow>
     scalar (discord_user_id e) \<and> scalar (discord_tag e) \<and> scalar (uid e) \<and> scalar (timestamp e)"

definition member_text :: "pystr \<times> pystr \<Rightarrow> pystr" where
  "member_text p = encode_basestring_ascii (fst p) @ [58, 32] @ encode_basestring_ascii (snd p)"

section \<open>Notions of the specification\<close>

text \<open>
  The definitions of this section follow the words of the specification, not the code:
  they are what the code is compared with.

  \<open>lines_of\<close> cuts a text into its newline-separated lines. \<open>doubled\<close> escapes every
  double quote by doubling it; \<open>spec_field\<close> wraps the escaped value in double quotes;
  \<open>spec_row\<close> is the row of an entry as the specification describes it, and
  \<open>spec_lines\<close> the lines of the export: the header, then one row per entry in store
  order. \<open>unique_entries\<close> holds both uniqueness invariants of the store.
  \<open>digits_value\<close> reads a decimal numeral back.
\<close>

fun lines_of :: "pystr \<Rightarrow> pystr list" where
  "lines_of [] = [[]]"
| "lines_of (c # cs) =
     (if c = 10 then [] # lines_of cs
      else (case lines_of cs of [] \<Rightarrow> [[c]] | l # ls \<Rightarrow> (c # l) # ls))"

definition doubled :: "pystr \<Rightarrow> pystr" where
  "doubled v = concat (map (\<lambda>c. if c = 34 then [34, 34] else [c]) v)"

definition spec_field :: "pystr \<Rightarrow> pystr" where
  "spec_field v = [34] @ doubled v @ [34]"

definition spec_row :: "entry \<Rightarrow> pystr" where
  "spec_row e =
     spec_field (discord_user_id e) @ [44] @ spec_field (discord_tag e) @ [44] @
     spec_field (uid e) @ [44] @ spec_field (timestamp e)"




section \<open>Basic facts\<close>

declare str_nat.simps [simp del]

lemma stored_None: "stored None = []"
  by (simp add: stored_def load_entries_def)

lemma stored_Some: "stored (Some es) = es"
  by (simp add: stored_def load_entries_def)

lemma load_entries_stored: "load_entries f = (stored f, Some (stored f))"
  by (cases f) (simp_all add: stored_def load_entries_def)

lemma stored_nonempty_file: "stored f \<noteq> [] \<Longrightarrow> f = Some (stored f)"
  by (cases f) (simp_all add: stored_None stored_Some)

lemma on_submit_cases:
  "on_submit i f =
     (if \<exists>e\<in>set (stored f). uid e = strip (form_value i)
        then (UidAlreadyUsed, Some (stored f))
      else if \<exists>e\<in>set (stored f). discord_user_id e = str_int (user_id i)
        then (UserAlreadyEntered, Some (stored f))
      else (Entered, Some (stored f @
              [\<lparr>discord_user_id = str_int (user_id i), discord_tag = user_str i,
                uid = strip (form_value i), timestamp = utcnow_isoformat i\<rparr>])))"
  by (simp add: on_submit_def load_entries_stored save_entries_def list_ex_iff Let_def)

text \<open>The equations that evaluate the model on concrete inputs.\<close>

lemmas eval_defs =
  stored_None stored_Some strip_def lstrip_def rstrip_def str_of_def isspace_def
  str_int_def str_nat.simps

subsection \<open>Decimal rendering is injective\<close>







subsection \<open>What strip removes\<close>

lemma lstrip_decomp: "s = takeWhile isspace s @ lstrip s"
  by (simp add: lstrip_def)

lemma rstrip_decomp: "s = rstrip s @ rev (takeWhile isspace (rev s))"
proof -
  have "rstrip s @ rev (takeWhile isspace (rev s)) =
      rev (takeWhile isspace (rev s) @ dropWhile isspace (rev s))"
    by (simp only: rstrip_def rev_append)
  also have "\<dots> = s"
    by (simp only: takeWhile_dropWhile_id rev_rev_ident)
  finally show ?thesis by (rule sym)
qed

lemma strip_decomp:
  "s = takeWhile isspace s @ strip s @ rev (takeWhile isspace (rev (lstrip s)))"
proof -
  have "lstrip s = strip s @ rev (takeWhile isspace (rev (lstrip s)))"
    unfolding strip_def by (rule rstrip_decomp)
  with lstrip_decomp [of s] show ?thesis by simp
qed

lemma strip_last: "strip s \<noteq> [] \<Longrightarrow> \<not> isspace (last (strip s))"
proof -
  assume ne: "strip s \<noteq> []"
  let ?d = "dropWhile isspace (rev (lstrip s))"
  from ne have d: "?d \<noteq> []" by (simp add: strip_def rstrip_def)
  have "last (strip s) = hd ?d" using d by (simp add: strip_def rstrip_def last_rev)
  with d show ?thesis by (simp add: hd_dropWhile)
qed

lemma strip_hd: "strip s \<noteq> [] \<Longrightarrow> \<not> isspace (hd (strip s))"
proof -
  assume ne: "strip s \<noteq> []"
  have eq: "lstrip s = strip s @ rev (takeWhile isspace (rev (lstrip s)))"
    unfolding strip_def by (rule rstrip_decomp)
  with ne have l: "lstrip s \<noteq> []" by auto
  from eq ne have "hd (lstrip s) = hd (strip s)" by (metis hd_append2)
  moreover from l have "\<not> isspace (hd (lstrip s))"
    unfolding lstrip_def by (rule hd_dropWhile)
  ultimately show ?thesis by simp
qed

lemma strip_unique:
  assumes s: "s = l @ m @ r" and l: "list_all isspace l" and r: "list_all isspace r"
    and m: "m = [] \<or> (\<not> isspace (hd m) \<and> \<not> isspace (last m))"
  shows "strip s = m"
proof (cases "m = []")
  case True
  with s l r have "list_all isspace s" by simp
  then have d: "dropWhile isspace s = []" by (simp add: list_all_iff)
  show ?thesis unfolding strip_def lstrip_def rstrip_def d using True by simp
next
  case False
  with m have h: "\<not> isspace (hd m)" and t: "\<not> isspace (last m)" by simp_all
  from False obtain a m' where am: "m = a # m'" by (cases m) auto
  from False obtain m'' b where mb: "m = m'' @ [b]" by (metis rev_exhaust)
  from am h have a: "\<not> isspace a" by simp
  from mb t have b: "\<not> isspace b" by simp
  from l have dl: "dropWhile isspace l = []" by (simp add: list_all_iff)
  from r have dr: "dropWhile isspace (rev r) = []" by (simp add: list_all_iff)
  have "lstrip s = m @ r"
    using s am a dl by (simp add: lstrip_def dropWhile_append3)
  moreover have "rstrip (m @ r) = m"
    using mb b dr by (simp add: rstrip_def dropWhile_append3)
  ultimately show ?thesis by (simp add: strip_def)
qed

lemma strip_example: "strip (str_of ''  ABC123  '') = str_of ''ABC123''"
  by (simp add: strip_def lstrip_def rstrip_def str_of_def isspace_def)

section \<open>Properties of the submission handler\<close>

lemma send_message_contents_differ:
  "content (send_message UidAlreadyUsed) \<noteq> content (send_message UserAlreadyEntered)"
  by (simp add: str_of_def)

lemma on_submit_Entered:
  assumes "\<forall>e\<in>set (stored f). uid e \<noteq> strip (form_value i)"
    and "\<forall>e\<in>set (stored f). discord_user_id e \<noteq> str_int (user_id i)"
  shows "on_submit i f = (Entered, Some (stored f @
              [\<lparr>discord_user_id = str_int (user_id i), discord_tag = user_str i,
                uid = strip (form_value i), timestamp = utcnow_isoformat i\<rparr>]))"
  using assms by (simp add: on_submit_cases)

lemma on_submit_Entered_iff:
  "fst (on_submit i f) = Entered \<longleftrightarrow>
     (\<forall>e\<in>set (stored f). uid e \<noteq> strip (form_value i)) \<and>
     (\<forall>e\<in>set (stored f). discord_user_id e \<noteq> str_int (user_id i))"
  by (auto simp: on_submit_cases)





text \<open>
  Claim C3. When a submission's trimmed UID is the uid of a stored entry and the
  submitting user's id is the discord_user_id of a stored entry, the handler answers
  with the UID-already-used rejection, whose message differs from that of the
  user-already-entered rejection.
\<close>

theorem uid_rejection_takes_precedence:
  assumes "e1 \<in> set (stored f)" and "uid e1 = strip (form_value i)"
    and "e2 \<in> set (stored f)" and "discord_user_id e2 = str_int (user_id i)"
  shows "fst (on_submit i f) = UidAlreadyUsed \<and>
    content (send_message (fst (on_submit i f))) \<noteq> content (send_message UserAlreadyEntered)"
proof -
  from assms(1,2) have "\<exists>e\<in>set (stored f). uid e = strip (form_value i)" by blast
  then have "fst (on_submit i f) = UidAlreadyUsed" by (simp add: on_submit_cases)
  with send_message_contents_differ show ?thesis by simp
qed

theorem uid_rejection_takes_precedence_witness:
  "fst (on_submit
      \<lparr>user_id = 7, user_str = str_of ''ann'', form_value = str_of '' A1 '',
        utcnow_isoformat = str_of ''2024-01-02T00:00:00''\<rparr>
      (Some [\<lparr>discord_user_id = str_of ''7'', discord_tag = str_of ''ann'', uid = str_of ''A1'',
              timestamp = str_of ''2024-01-01T00:00:00''\<rparr>])) = UidAlreadyUsed"
  using uid_rejection_takes_precedence
    [of "\<lparr>discord_user_id = str_of ''7'', discord_tag = str_of ''ann'', uid = str_of ''A1'',
          timestamp = str_of ''2024-01-01T00:00:00''\<rparr>"
        "Some [\<lparr>discord_user_id = str_of ''7'', discord_tag = str_of ''ann'', uid = str_of ''A1'',
              timestamp = str_of ''2024-01-01T00:00:00''\<rparr>]"
        "\<lparr>user_id = 7, user_str = str_of ''ann'', form_value = str_of '' A1 '',
          utcnow_isoformat = str_of ''2024-01-02T00:00:00''\<rparr>"
        "\<lparr>discord_user_id = str_of ''7'', discord_tag = str_of ''ann'', uid = str_of ''A1'',
          timestamp = str_of ''2024-01-01T00:00:00''\<rparr>"]
  by (simp add: eval_defs)

text \<open>
  Claim C4. When the store holds an entry with uid \<open>u\<close>, a submission by any user whose
  trimmed UID is \<open>u\<close> is rejected as UID-already-used, and the file afterwards is the
  file before.
\<close>

theorem used_uid_rejected_store_unchanged:
  assumes "e \<in> set (stored f)" and "uid e = strip (form_value i)"
  shows "on_submit i f = (UidAlreadyUsed, f)"
proof -
  from assms have "\<exists>e\<in>set (stored f). uid e = strip (form_value i)" by blast
  moreover from assms(1) have "stored f \<noteq> []" by auto
  then have "f = Some (stored f)" by (rule stored_nonempty_file)
  ultimately show ?thesis by (simp add: on_submit_cases)
qed

theorem used_uid_rejected_store_unchanged_witness:
  "on_submit
      \<lparr>user_id = 8, user_str = str_of ''bob'', form_value = str_of ''A1'',
        utcnow_isoformat = str_of ''2024-01-02T00:00:00''\<rparr>
      (Some [\<lparr>discord_user_id = str_of ''7'', discord_tag = str_of ''ann'', uid = str_of ''A1'',
              timestamp = str_of ''2024-01-01T00:00:00''\<rparr>])
    = (UidAlreadyUsed,
       Some [\<lparr>discord_user_id = str_of ''7'', discord_tag = str_of ''ann'', uid = str_of ''A1'',
              timestamp = str_of ''2024-01-01T00:00:00''\<rparr>])"
  using used_uid_rejected_store_unchanged
    [of "\<lparr>discord_user_id = str_of ''7'', discord_tag = str_of ''ann'', uid = str_of ''A1'',
          timestamp = str_of ''2024-01-01T00:00:00''\<rparr>"
        "Some [\<lparr>discord_user_id = str_of ''7'', discord_tag = str_of ''ann'', uid = str_of ''A1'',
              timestamp = str_of ''2024-01-01T00:00:00''\<rparr>]"
        "\<lparr>user_id = 8, user_str = str_of ''bob'', form_value = str_of ''A1'',
          utcnow_isoformat = str_of ''2024-01-02T00:00:00''\<rparr>"]
  by (simp add: eval_defs)

text \<open>
  Claim C5. When the store holds an entry of the submitting user and the trimmed UID
  differs from every stored uid, the submission is rejected as user-already-entered,
  and the file afterwards is the file before.
\<close>

theorem entered_user_rejected_store_unchanged:
  assumes "e \<in> set (stored f)" and "discord_user_id e = str_int (user_id i)"
    and "\<forall>e'\<in>set (stored f). uid e' \<noteq> strip (form_value i)"
  shows "on_submit i f = (UserAlreadyEntered, f)"
proof -
  from assms(1,2) have "\<exists>e\<in>set (stored f). discord_user_id e = str_int (user_id i)" by blast
  moreover from assms(3) have "\<not> (\<exists>e\<in>set (stored f). uid e = strip (form_value i))" by blast
  moreover from assms(1) have "stored f \<noteq> []" by auto
  then have "f = Some (stored f)" by (rule stored_nonempty_file)
  ultimately show ?thesis by (simp add: on_submit_cases)
qed

theorem entered_user_rejected_store_unchanged_witness:
  "on_submit
      \<lparr>user_id = 7, user_str = str_of ''ann'', form_value = str_of ''B2'',
        utcnow_isoformat = str_of ''2024-01-02T00:00:00''\<rparr>
      (Some [\<lparr>discord_user_id = str_of ''7'', discord_tag = str_of ''ann'', uid = str_of ''A1'',
              timestamp = str_of ''2024-01-01T00:00:00''\<rparr>])
    = (UserAlreadyEntered,
       Some [\<lparr>discord_user_id = str_of ''7'', discord_tag = str_of ''ann'', uid = str_of ''A1'',
              timestamp = str_of ''2024-01-01T00:00:00''\<rparr>])"
  using entered_user_rejected_store_unchanged
    [of "\<lparr>discord_user_id = str_of ''7'', discord_tag = str_of ''ann'', uid = str_of ''A1'',
          timestamp = str_of ''2024-01-01T00:00:00''\<rparr>"
        "Some [\<lparr>discord_user_id = str_of ''7'', discord_tag = str_of ''ann'', uid = str_of ''A1'',
              timestamp = str_of ''2024-01-01T00:00:00''\<rparr>]"
        "\<lparr>user_id = 7, user_str = str_of ''ann'', form_value = str_of ''B2'',
          utcnow_isoformat = str_of ''2024-01-02T00:00:00''\<rparr>"]
  by (simp add: eval_defs)



text \<open>
  Claim C7. On acceptance one entry is appended, and its uid is the submitted text
  without its leading and trailing white space: the text is a run of white space, the
  uid, and a run of white space, the uid is empty or neither begins nor ends with white
  space, and it is the only such part of the text. Submitting \<open>"  ABC123  "\<close> stores
  \<open>"ABC123"\<close>.
\<close>

theorem accepted_uid_is_trimmed:
  assumes "fst (on_submit i f) = Entered"
  shows "\<exists>e l r. stored (snd (on_submit i f)) = stored f @ [e] \<and>
           form_value i = l @ uid e @ r \<and> list_all isspace l \<and> list_all isspace r \<and>
           (uid e = [] \<or> (\<not> isspace (hd (uid e)) \<and> \<not> isspace (last (uid e)))) \<and>
           (\<forall>l' m r'. form_value i = l' @ m @ r' \<and> list_all isspace l' \<and> list_all isspace r' \<and>
                (m = [] \<or> (\<not> isspace (hd m) \<and> \<not> isspace (last m))) \<longrightarrow> uid e = m) \<and>
           (form_value i = str_of ''  ABC123  '' \<longrightarrow> uid e = str_of ''ABC123'')"
proof -
  let ?s = "form_value i"
  let ?e = "\<lparr>discord_user_id = str_int (user_id i), discord_tag = user_str i,
                uid = strip ?s, timestamp = utcnow_isoformat i\<rparr>"
  let ?l = "takeWhile isspace ?s"
  let ?r = "rev (takeWhile isspace (rev (lstrip ?s)))"
  from assms have "on_submit i f = (Entered, Some (stored f @ [?e]))"
    by (simp add: on_submit_Entered_iff on_submit_Entered)
  then have 1: "stored (snd (on_submit i f)) = stored f @ [?e]" by (simp add: stored_Some)
  have 2: "?s = ?l @ uid ?e @ ?r" using strip_decomp [of ?s] by simp
  have 3: "list_all isspace ?l" by (simp add: list_all_iff) (metis set_takeWhileD)
  have 4: "list_all isspace ?r" by (simp add: list_all_iff) (metis set_takeWhileD)
  have 5: "uid ?e = [] \<or> (\<not> isspace (hd (uid ?e)) \<and> \<not> isspace (last (uid ?e)))"
    using strip_hd [of ?s] strip_last [of ?s] by auto
  have 6: "\<forall>l' m r'. ?s = l' @ m @ r' \<and> list_all isspace l' \<and> list_all isspace r' \<and>
                (m = [] \<or> (\<not> isspace (hd m) \<and> \<not> isspace (last m))) \<longrightarrow> uid ?e = m"
    using strip_unique [of ?s] by auto
  have 7: "?s = str_of ''  ABC123  '' \<longrightarrow> uid ?e = str_of ''ABC123''"
    using strip_example by simp
  from 1 2 3 4 5 6 7 show ?thesis by blast
qed

theorem accepted_uid_is_trimmed_witness:
  "fst (on_submit
      \<lparr>user_id = 7, user_str = str_of ''ann'', form_value = str_of ''  ABC123  '',
        utcnow_isoformat = str_of ''2024-01-01T00:00:00''\<rparr> None) = Entered \<and>
   (\<exists>e. stored (snd (on_submit
      \<lparr>user_id = 7, user_str = str_of ''ann'', form_value = str_of ''  ABC123  '',
        utcnow_isoformat = str_of ''2024-01-01T00:00:00''\<rparr> None)) = [e] \<and>
      uid e = str_of ''ABC123'')"
proof -
  let ?i = "\<lparr>user_id = 7, user_str = str_of ''ann'', form_value = str_of ''  ABC123  '',
        utcnow_isoformat = str_of ''2024-01-01T00:00:00''\<rparr>"
  have a: "fst (on_submit ?i None) = Entered"
    by (simp add: on_submit_cases stored_None)
  from accepted_uid_is_trimmed [OF a]
  obtain e where "stored (snd (on_submit ?i None)) = stored None @ [e]"
    and "form_value ?i = str_of ''  ABC123  '' \<longrightarrow> uid e = str_of ''ABC123''"
    by blast
  then have "stored (snd (on_submit ?i None)) = [e] \<and> uid e = str_of ''ABC123''"
    by (simp add: stored_None)
  with a show ?thesis by blast
qed

text \<open>
  Claim C8. A submission whose text trims to the empty string goes through the same
  checks as any other: it is rejected as UID-already-used when an entry with the empty
  uid is stored, as user-already-entered when none is and the user has an entry, and
  otherwise accepted, an entry with the empty uid being appended.
\<close>

theorem empty_uid_not_special:
  assumes "strip (form_value i) = []"
  shows "((\<exists>e\<in>set (stored f). uid e = []) \<longrightarrow> on_submit i f = (UidAlreadyUsed, f)) \<and>
    ((\<forall>e\<in>set (stored f). uid e \<noteq> []) \<and>
       (\<exists>e\<in>set (stored f). discord_user_id e = str_int (user_id i)) \<longrightarrow>
         on_submit i f = (UserAlreadyEntered, f)) \<and>
    ((\<forall>e\<in>set (stored f). uid e \<noteq> []) \<and>
       (\<forall>e\<in>set (stored f). discord_user_id e \<noteq> str_int (user_id i)) \<longrightarrow>
         on_submit i f = (Entered, Some (stored f @
           [\<lparr>discord_user_id = str_int (user_id i), discord_tag = user_str i,
             uid = [], timestamp = utcnow_isoformat i\<rparr>])))"
proof (intro conjI impI)
  assume "\<exists>e\<in>set (stored f). uid e = []"
  moreover then have "stored f \<noteq> []" by auto
  then have "f = Some (stored f)" by (rule stored_nonempty_file)
  ultimately show "on_submit i f = (UidAlreadyUsed, f)"
    using assms by (simp add: on_submit_cases)
next
  assume a: "(\<forall>e\<in>set (stored f). uid e \<noteq> []) \<and>
       (\<exists>e\<in>set (stored f). discord_user_id e = str_int (user_id i))"
  then have "stored f \<noteq> []" by auto
  then have "f = Some (stored f)" by (rule stored_nonempty_file)
  with a show "on_submit i f = (UserAlreadyEntered, f)"
    using assms by (simp add: on_submit_cases)
next
  assume "(\<forall>e\<in>set (stored f). uid e \<noteq> []) \<and>
       (\<forall>e\<in>set (stored f). discord_user_id e \<noteq> str_int (user_id i))"
  then show "on_submit i f = (Entered, Some (stored f @
           [\<lparr>discord_user_id = str_int (user_id i), discord_tag = user_str i,
             uid = [], timestamp = utcnow_isoformat i\<rparr>]))"
    using assms by (simp add: on_submit_cases)
qed

theorem empty_uid_not_special_witness:
  "strip (str_of ''   '') = [] \<and>
   on_submit
      \<lparr>user_id = 7, user_str = str_of ''ann'', form_value = str_of ''   '',
        utcnow_isoformat = str_of ''t1''\<rparr> None
    = (Entered, Some [\<lparr>discord_user_id = str_of ''7'', discord_tag = str_of ''ann'', uid = [],
              timestamp = str_of ''t1''\<rparr>]) \<and>
   on_submit
      \<lparr>user_id = 8, user_str = str_of ''bob'', form_value = [],
        utcnow_isoformat = str_of ''t2''\<rparr>
      (Some [\<lparr>discord_user_id = str_of ''7'', discord_tag = str_of ''ann'', uid = [],
              timestamp = str_of ''t1''\<rparr>])
    = (UidAlreadyUsed, Some [\<lparr>discord_user_id = str_of ''7'', discord_tag = str_of ''ann'', uid = [],
              timestamp = str_of ''t1''\<rparr>])"
  using empty_uid_not_special
      [of "\<lparr>user_id = 7, user_str = str_of ''ann'', form_value = str_of ''   '',
        utcnow_isoformat = str_of ''t1''\<rparr>" None]
    empty_uid_not_special
      [of "\<lparr>user_id = 8, user_str = str_of ''bob'', form_value = [],
        utcnow_isoformat = str_of ''t2''\<rparr>"
       "Some [\<lparr>discord_user_id = str_of ''7'', discord_tag = str_of ''ann'', uid = [],
              timestamp = str_of ''t1''\<rparr>]"]
  by (simp add: eval_defs)

section \<open>Properties of the export\<close>

lemma lines_of_nonempty: "lines_of s \<noteq> []"
  by (induction s) (auto split: list.splits)












text \<open>The reply of the export for a non-empty store whose text encodes.\<close>

lemma export_entries_nonempty:
  assumes "stored f \<noteq> []" and "encode_utf8 (csv_content (stored f)) = Inr csv_bytes"
  shows "export_entries True f =
    (Inr \<lparr>reply_content = 128193 # str_of '' Exported **'' @ str_nat (length (stored f))
             @ str_of ''** entries.'',
          reply_file = Some \<lparr>filename = str_of ''entries.csv'', data = csv_bytes\<rparr>\<rparr>, f)"
proof -
  from assms(1) have "f = Some (stored f)" by (rule stored_nonempty_file)
  with assms show ?thesis
    by (simp add: export_entries_def load_entries_stored)
qed




text \<open>
  Only the uid is escaped by \<open>row\<close>: a double quote in the display string of the user is
  written as it is.
\<close>

lemma row_tag_quote_not_doubled:
  "row \<lparr>discord_user_id = str_of ''7'', discord_tag = str_of ''a\"b'', uid = str_of ''C3'',
        timestamp = str_of ''t1''\<rparr> = str_of ''\"7\",\"a\"b\",\"C3\",\"t1\"'' \<and>
   spec_row \<lparr>discord_user_id = str_of ''7'', discord_tag = str_of ''a\"b'', uid = str_of ''C3'',
        timestamp = str_of ''t1''\<rparr> = str_of ''\"7\",\"a\"\"b\",\"C3\",\"t1\"''"
  by (simp add: row_def quoted_def replace_char_def str_of_def spec_row_def spec_field_def
      doubled_def)

text \<open>
  Claim C9. When the store is empty, the export replies with the warning alone, with no
  file attached, and the store read afterwards is the store before; a file that existed
  is left as it was.
\<close>

theorem export_of_empty_store:
  assumes "stored f = []"
  shows "export_entries True f =
      (Inr \<lparr>reply_content = 9888 # str_of '' No entries found.'', reply_file = None\<rparr>, Some []) \<and>
    stored (snd (export_entries True f)) = stored f \<and>
    (f \<noteq> None \<longrightarrow> snd (export_entries True f) = f)"
proof -
  from assms have l: "load_entries f = ([], Some [])" by (simp add: load_entries_stored)
  then have 1: "export_entries True f =
      (Inr \<lparr>reply_content = 9888 # str_of '' No entries found.'', reply_file = None\<rparr>, Some [])"
    by (simp add: export_entries_def)
  have 2: "f \<noteq> None \<longrightarrow> f = Some []"
    using assms by (cases f) (simp_all add: stored_Some)
  from 1 2 assms show ?thesis by (auto simp: stored_Some)
qed

theorem export_of_empty_store_witness:
  "stored (Some []) = [] \<and>
   export_entries True (Some []) =
      (Inr \<lparr>reply_content = 9888 # str_of '' No entries found.'', reply_file = None\<rparr>, Some [])"
  using export_of_empty_store [of "Some []"]
  by (simp add: stored_Some)

section \<open>Properties of the JSON text\<close>

lemma hex_value_hex_digit: "d < 16 \<Longrightarrow> hex_value (hex_digit d) = Some d"
  by (auto simp: hex_value_def hex_digit_def)

lemma hex4_value:
  assumes "(n::nat) < 65536"
  shows "((n div 4096 mod 16 * 16 + n div 256 mod 16) * 16 + n div 16 mod 16) * 16 + n mod 16 = n"
proof -
  define a where "a = n div 16"
  define b where "b = a div 16"
  define c where "c = b div 16"
  define r0 where "r0 = n mod 16"
  define r1 where "r1 = a mod 16"
  define r2 where "r2 = b mod 16"
  have n: "n = 16 * a + r0" unfolding a_def r0_def by simp
  have a: "a = 16 * b + r1" unfolding b_def r1_def by simp
  have b: "b = 16 * c + r2" unfolding c_def r2_def by simp
  have b256: "n div 256 = b" unfolding b_def a_def by (simp add: div_mult2_eq)
  have c4096: "n div 4096 = c" unfolding c_def b_def a_def by (simp add: div_mult2_eq)
  from assms have "c < 16" unfolding c4096 [symmetric] by simp
  then have cm: "c mod 16 = c" by simp
  have "((c * 16 + r2) * 16 + r1) * 16 + r0 = n"
    using n a b by simp
  then show ?thesis unfolding b256 c4096 cm r0_def r1_def r2_def a_def .
qed

lemma decode_hex4:
  assumes "n < 65536"
  shows "decode_uXXXX (hex_digit (n div 4096 mod 16)) (hex_digit (n div 256 mod 16))
           (hex_digit (n div 16 mod 16)) (hex_digit (n mod 16)) = Some n"
proof -
  have d: "hex_value (hex_digit (k mod 16)) = Some (k mod 16)" for k
    by (rule hex_value_hex_digit) simp
  show ?thesis
    unfolding decode_uXXXX_def d by (simp only: prod.case option.case hex4_value [OF assms])
qed

lemma scanstring_u:
  assumes "decode_uXXXX a b c d = Some uni" and "\<not> (55296 \<le> uni \<and> uni \<le> 56319)"
  shows "scanstring (92 # 117 # a # b # c # d # r) = push_char uni (scanstring r)"
  using assms by auto

lemma scanstring_pair:
  assumes "decode_uXXXX a b c d = Some uni" and "55296 \<le> uni" and "uni \<le> 56319"
    and "decode_uXXXX a2 b2 c2 d2 = Some uni2" and "56320 \<le> uni2" and "uni2 \<le> 57343"
  shows "scanstring (92 # 117 # a # b # c # d # 92 # 117 # a2 # b2 # c2 # d2 # r) =
         push_char (65536 + ((uni - 55296) * 1024 + (uni2 - 56320))) (scanstring r)"
  using assms by simp

lemma scanstring_plain:
  assumes "c \<noteq> 34" and "c \<noteq> 92" and "32 \<le> c"
  shows "scanstring (c # r) = push_char c (scanstring r)"
  using assms by simp

lemma scanstring_backslash:
  assumes "esc \<noteq> 117" and "backslash esc = Some ch"
  shows "scanstring (92 # esc # r) = push_char ch (scanstring r)"
  using assms by simp

lemma scanstring_escape_char:
  assumes lt: "c < 1114112" and ns: "\<not> (55296 \<le> c \<and> c \<le> 57343)"
  shows "scanstring (escape_char c @ t) = push_char c (scanstring t)"
proof -
  consider (named) "c \<in> {34, 92, 10, 13, 9, 8, 12}"
    | (plain) "c \<notin> {34, 92, 10, 13, 9, 8, 12}" "32 \<le> c" "c \<le> 126"
    | (bmp) "c \<notin> {34, 92, 10, 13, 9, 8, 12}" "\<not> (32 \<le> c \<and> c \<le> 126)" "c < 65536"
    | (astral) "65536 \<le> c"
    by fastforce
  then show ?thesis
  proof cases
    case named
    then show ?thesis
      by (auto simp: escape_char_def backslash_def scanstring_backslash)
  next
    case plain
    then have "escape_char c @ t = c # t" by (auto simp: escape_char_def)
    with plain show ?thesis by (simp add: scanstring_plain)
  next
    case bmp
    then have e: "escape_char c @ t =
        92 # 117 # hex_digit (c div 4096 mod 16) # hex_digit (c div 256 mod 16) #
          hex_digit (c div 16 mod 16) # hex_digit (c mod 16) # t"
      by (auto simp: escape_char_def hex4_def)
    from ns have "\<not> (55296 \<le> c \<and> c \<le> 56319)" by linarith
    with decode_hex4 [OF bmp(3)] show ?thesis
      unfolding e by (rule scanstring_u)
  next
    case astral
    define v where "v = c - 65536"
    define hi where "hi = 55296 + v div 1024 mod 1024"
    define lo where "lo = 56320 + v mod 1024"
    from lt astral have v: "v < 1048576" unfolding v_def by simp
    then have d: "v div 1024 mod 1024 = v div 1024" by simp
    have hi: "55296 \<le> hi" "hi \<le> 56319" "hi < 65536" unfolding hi_def by simp_all
    have lo: "56320 \<le> lo" "lo \<le> 57343" "lo < 65536" unfolding lo_def by simp_all
    have c: "65536 + ((hi - 55296) * 1024 + (lo - 56320)) = c"
      unfolding hi_def lo_def d using astral by (simp add: v_def)
    from astral have e: "escape_char c @ t =
        92 # 117 # hex_digit (hi div 4096 mod 16) # hex_digit (hi div 256 mod 16) #
          hex_digit (hi div 16 mod 16) # hex_digit (hi mod 16) #
        92 # 117 # hex_digit (lo div 4096 mod 16) # hex_digit (lo div 256 mod 16) #
          hex_digit (lo div 16 mod 16) # hex_digit (lo mod 16) # t"
      by (simp add: escape_char_def hex4_def hi_def lo_def v_def)
    show ?thesis
      unfolding e
      using scanstring_pair [OF decode_hex4 [OF hi(3)] hi(1,2) decode_hex4 [OF lo(3)] lo(1,2)]
      by (simp only: c)
  qed
qed

lemma scanstring_escaped:
  assumes "scalar s"
  shows "scanstring (concat (map escape_char s) @ 34 # rest) = Inr (s, rest)"
  using assms
proof (induction s)
  case Nil
  then show ?case by simp
next
  case (Cons c s)
  then have "c < 1114112" "\<not> (55296 \<le> c \<and> c \<le> 57343)" "scalar s"
    by (simp_all add: scalar_def)
  with Cons.IH show ?case
    by (simp add: scanstring_escape_char push_char_def del: scanstring.simps)
qed

lemma scanstring_encoded:
  assumes "scalar s"
  shows "\<exists>t. encode_basestring_ascii s @ rest = 34 # t \<and> scanstring t = Inr (s, rest)"
  using scanstring_escaped [OF assms] by (simp add: encode_basestring_ascii_def)

lemma skip_whitespace_indent: "skip_whitespace (newline_indent L @ t) = skip_whitespace t"
proof -
  have "dropWhile is_whitespace (replicate k 32 @ t) = dropWhile is_whitespace t" for k
    by (induction k) (simp_all add: is_whitespace_def)
  then show ?thesis
    by (simp add: skip_whitespace_def newline_indent_def is_whitespace_def)
qed

lemma skip_whitespace_stop: "\<not> is_whitespace c \<Longrightarrow> skip_whitespace (c # t) = c # t"
  by (simp add: skip_whitespace_def)

lemma scan_once_string:
  assumes "scalar s"
  shows "scan_once (Suc n) (encode_basestring_ascii s @ rest) = Inr (JString s, rest)"
proof -
  from scanstring_encoded [OF assms] obtain t
    where "encode_basestring_ascii s @ rest = 34 # t" and "scanstring t = Inr (s, rest)"
    by blast
  then show ?thesis by simp
qed

lemma parse_object_step:
  assumes k: "scalar k" and s: "scalar s"
  shows "parse_object (Suc (Suc m)) (member_text (k, s) @ tail) =
     (case skip_whitespace tail of
        [] \<Rightarrow> Inl JSONDecodeError
      | d # r3 \<Rightarrow>
          if d = 125 then Inr ([(k, JString s)], r3)
          else if d = 44 then
            (case parse_object (Suc m) (skip_whitespace r3) of
               Inl e \<Rightarrow> Inl e
             | Inr (kvs, r4) \<Rightarrow> Inr ((k, JString s) # kvs, r4))
          else Inl JSONDecodeError)"
proof -
  let ?after = "58 # 32 # encode_basestring_ascii s @ tail"
  from scanstring_encoded [OF k] obtain t
    where t: "encode_basestring_ascii k @ ?after = 34 # t" "scanstring t = Inr (k, ?after)"
    by blast
  have m: "member_text (k, s) @ tail = 34 # t"
    using t(1) by (simp add: member_text_def)
  from scanstring_encoded [OF s] obtain u
    where u: "encode_basestring_ascii s @ tail = 34 # u" by blast
  have w1: "skip_whitespace ?after = ?after"
    by (simp add: skip_whitespace_def is_whitespace_def)
  have w2: "skip_whitespace (32 # encode_basestring_ascii s @ tail) =
      encode_basestring_ascii s @ tail"
    unfolding u by (simp add: skip_whitespace_def is_whitespace_def)
  have v: "scan_once (Suc m) (encode_basestring_ascii s @ tail) = Inr (JString s, tail)"
    using s by (rule scan_once_string)
  show ?thesis
    unfolding m
    by (simp only: parse_object.simps list.case t(2) sum.case prod.case w1 w2 v
        simp_thms if_False if_True)
qed

lemma member_text_head: "\<exists>t. member_text p @ u = 34 # t"
  by (simp add: member_text_def encode_basestring_ascii_def)

lemma join_member_head:
  "\<exists>t. join sep (map member_text (p # ps)) @ u = 34 # t"
proof (cases ps)
  case Nil
  then show ?thesis using member_text_head [of p u] by simp
next
  case (Cons q qs)
  then show ?thesis
    using member_text_head [of p "sep @ join sep (map member_text (q # qs)) @ u"] by simp
qed

lemma parse_object_members:
  assumes "\<forall>p\<in>set (p0 # ps). scalar (fst p) \<and> scalar (snd p)" and "length ps + 2 \<le> n"
  shows "parse_object n
           (join (44 # newline_indent L) (map member_text (p0 # ps)) @
            newline_indent L' @ 125 # rest) =
         Inr (map (\<lambda>p. (fst p, JString (snd p))) (p0 # ps), rest)"
  using assms
proof (induction ps arbitrary: p0 n)
  case Nil
  then obtain m where n: "n = Suc (Suc m)"
    by (metis add_2_eq_Suc le_Suc_ex list.size(3) add.left_neutral)
  from Nil.prems have sc: "scalar (fst p0)" "scalar (snd p0)" by simp_all
  have w: "skip_whitespace (newline_indent L' @ 125 # rest) = 125 # rest"
    by (simp add: skip_whitespace_indent skip_whitespace_stop is_whitespace_def)
  show ?case
    unfolding n using parse_object_step [OF sc, of m "newline_indent L' @ 125 # rest"]
    by (simp add: w del: parse_object.simps)
next
  case (Cons q qs)
  from Cons.prems(2) obtain m where n: "n = Suc (Suc m)" and m: "length qs + 2 \<le> Suc m"
    by (metis add_2_eq_Suc' le_Suc_ex length_Cons add_Suc add_Suc_right le_add1
        Suc_le_mono)
  from Cons.prems have sc: "scalar (fst p0)" "scalar (snd p0)" by simp_all
  from Cons.prems have rest_sc: "\<forall>p\<in>set (q # qs). scalar (fst p) \<and> scalar (snd p)" by simp
  let ?more = "join (44 # newline_indent L) (map member_text (q # qs)) @
            newline_indent L' @ 125 # rest"
  let ?tail = "44 # newline_indent L @ ?more"
  have split_text: "join (44 # newline_indent L) (map member_text (p0 # q # qs)) @
            newline_indent L' @ 125 # rest = member_text (fst p0, snd p0) @ ?tail"
    by simp
  have w1: "skip_whitespace ?tail = ?tail"
    by (simp add: skip_whitespace_stop is_whitespace_def)
  obtain t where t: "?more = 34 # t"
    using join_member_head [of "44 # newline_indent L" q qs "newline_indent L' @ 125 # rest"]
    by blast
  have w2: "skip_whitespace (newline_indent L @ ?more) = ?more"
    unfolding skip_whitespace_indent t by (simp add: skip_whitespace_stop is_whitespace_def)
  have ih: "parse_object (Suc m) ?more =
      Inr (map (\<lambda>p. (fst p, JString (snd p))) (q # qs), rest)"
    using rest_sc m by (rule Cons.IH)
  have ne: "(44::nat) = 125 \<longleftrightarrow> False" by simp
  have "parse_object n (member_text (fst p0, snd p0) @ ?tail) =
      Inr ((fst p0, JString (snd p0)) # map (\<lambda>p. (fst p, JString (snd p))) (q # qs), rest)"
    unfolding n parse_object_step [OF sc] w1
    by (simp only: list.case ne if_False if_True simp_thms w2 ih sum.case prod.case)
  then show ?case unfolding split_text by simp
qed

lemma scalar_str_of_keys:
  "scalar (str_of ''discord_user_id'')" "scalar (str_of ''discord_tag'')"
  "scalar (str_of ''uid'')" "scalar (str_of ''timestamp'')"
  by (simp_all add: scalar_def str_of_def)

lemma entry_members_scalar:
  "scalar_entry e \<Longrightarrow> \<forall>p\<in>set (entry_members e). scalar (fst p) \<and> scalar (snd p)"
  by (simp add: scalar_entry_def entry_members_def scalar_str_of_keys)

lemma json_of_entry_members:
  "json_of_entry e = JObject (map (\<lambda>p. (fst p, JString (snd p))) (entry_members e))"
  by (simp add: json_of_entry_def entry_members_def)

lemma iterencode_entry:
  "iterencode L (json_of_entry e) =
     123 # newline_indent (Suc L) @
       join (44 # newline_indent (Suc L)) (map member_text (entry_members e)) @
       newline_indent L @ [125]"
  by (simp add: json_of_entry_def entry_members_def member_text_def)

lemma scan_once_object:
  assumes "skip_whitespace cs = 34 # t" and "parse_object m (34 # t) = Inr (kvs, r)"
  shows "scan_once (Suc m) (123 # cs) = Inr (JObject kvs, r)"
  using assms by simp

lemma scan_once_array:
  assumes "skip_whitespace cs = 123 # t" and "parse_array m (123 # t) = Inr (xs, r)"
  shows "scan_once (Suc m) (91 # cs) = Inr (JArray xs, r)"
  using assms by simp

lemma parse_array_last:
  assumes "scan_once m s = Inr (x, r)" and "skip_whitespace r = 93 # r1"
  shows "parse_array (Suc m) s = Inr ([x], r1)"
  using assms by simp

lemma parse_array_more:
  assumes "scan_once m s = Inr (x, r)" and "skip_whitespace r = 44 # r1"
    and "parse_array m (skip_whitespace r1) = Inr (xs, r2)"
  shows "parse_array (Suc m) s = Inr (x # xs, r2)"
  using assms by simp

lemma scan_once_entry:
  assumes "scalar_entry e" and "6 \<le> n"
  shows "scan_once n (iterencode L (json_of_entry e) @ rest) = Inr (json_of_entry e, rest)"
proof -
  from assms(2) obtain m where n: "n = Suc m" and m: "5 \<le> m"
    by (cases n) auto
  define p0 where "p0 = (str_of ''discord_user_id'', discord_user_id e)"
  define ps where "ps = [(str_of ''discord_tag'', discord_tag e),
      (str_of ''uid'', uid e), (str_of ''timestamp'', timestamp e)]"
  have ms: "entry_members e = p0 # ps" by (simp add: entry_members_def p0_def ps_def)
  have l: "length ps = 3" by (simp add: ps_def)
  define body where "body = join (44 # newline_indent (Suc L)) (map member_text (p0 # ps)) @
       newline_indent L @ 125 # rest"
  have sc: "\<forall>p\<in>set (p0 # ps). scalar (fst p) \<and> scalar (snd p)"
    using entry_members_scalar [OF assms(1)] unfolding ms .
  from l m have "length ps + 2 \<le> m" by simp
  with sc have po: "parse_object m body =
      Inr (map (\<lambda>p. (fst p, JString (snd p))) (p0 # ps), rest)"
    unfolding body_def by (rule parse_object_members)
  obtain t where t: "body = 34 # t"
    unfolding body_def
    using join_member_head [of "44 # newline_indent (Suc L)" p0 ps "newline_indent L @ 125 # rest"]
    by blast
  have "skip_whitespace (34 # t) = 34 # t"
    by (rule skip_whitespace_stop) (simp add: is_whitespace_def)
  then have w: "skip_whitespace (newline_indent (Suc L) @ body) = 34 # t"
    unfolding skip_whitespace_indent t .
  have enc: "iterencode L (json_of_entry e) @ rest = 123 # newline_indent (Suc L) @ body"
    unfolding iterencode_entry body_def ms by simp
  have "scan_once (Suc m) (123 # newline_indent (Suc L) @ body) =
      Inr (JObject (map (\<lambda>p. (fst p, JString (snd p))) (p0 # ps)), rest)"
    using w po [unfolded t] by (rule scan_once_object)
  then have "scan_once n (iterencode L (json_of_entry e) @ rest) =
      Inr (JObject (map (\<lambda>p. (fst p, JString (snd p))) (p0 # ps)), rest)"
    by (simp only: n enc)
  also have "JObject (map (\<lambda>p. (fst p, JString (snd p))) (p0 # ps)) = json_of_entry e"
    by (simp only: json_of_entry_members ms)
  finally show ?thesis .
qed

lemma iterencode_entry_head: "\<exists>t. iterencode L (json_of_entry e) @ u = 123 # t"
  by (simp add: iterencode_entry)

lemma join_entry_head:
  "\<exists>t. join sep (map (\<lambda>e. iterencode L (json_of_entry e)) (e0 # es)) @ u = 123 # t"
proof (cases es)
  case Nil
  then show ?thesis using iterencode_entry_head [of L e0 u] by simp
next
  case (Cons e1 es1)
  then show ?thesis
    using iterencode_entry_head
      [of L e0 "sep @ join sep (map (\<lambda>e. iterencode L (json_of_entry e)) (e1 # es1)) @ u"]
    by simp
qed

lemma parse_array_entries:
  assumes "\<forall>e\<in>set (e0 # es). scalar_entry e" and "length es + 7 \<le> n"
  shows "parse_array n
           (join (44 # newline_indent L) (map (\<lambda>e. iterencode L (json_of_entry e)) (e0 # es)) @
            newline_indent L' @ 93 # rest) =
         Inr (map json_of_entry (e0 # es), rest)"
  using assms
proof (induction es arbitrary: e0 n)
  case Nil
  then obtain m where n: "n = Suc m" and m: "6 \<le> m" by (cases n) auto
  from Nil.prems have sc: "scalar_entry e0" by simp
  have so: "scan_once m (iterencode L (json_of_entry e0) @ newline_indent L' @ 93 # rest) =
      Inr (json_of_entry e0, newline_indent L' @ 93 # rest)"
    using sc m by (rule scan_once_entry)
  have "skip_whitespace (93 # rest) = 93 # rest"
    by (rule skip_whitespace_stop) (simp add: is_whitespace_def)
  then have w: "skip_whitespace (newline_indent L' @ 93 # rest) = 93 # rest"
    unfolding skip_whitespace_indent .
  have "parse_array (Suc m) (iterencode L (json_of_entry e0) @ newline_indent L' @ 93 # rest) =
      Inr ([json_of_entry e0], rest)"
    using so w by (rule parse_array_last)
  then show ?case unfolding n by simp
next
  case (Cons e1 es1)
  from Cons.prems(2) obtain m where n: "n = Suc m" and m: "length es1 + 7 \<le> m"
    by (cases n) auto
  from m have m6: "6 \<le> m" by simp
  from Cons.prems have sc: "scalar_entry e0" by simp
  from Cons.prems have rest_sc: "\<forall>e\<in>set (e1 # es1). scalar_entry e" by simp
  define more where "more =
      join (44 # newline_indent L) (map (\<lambda>e. iterencode L (json_of_entry e)) (e1 # es1)) @
      newline_indent L' @ 93 # rest"
  have split_text:
    "join (44 # newline_indent L) (map (\<lambda>e. iterencode L (json_of_entry e)) (e0 # e1 # es1)) @
       newline_indent L' @ 93 # rest =
     iterencode L (json_of_entry e0) @ 44 # newline_indent L @ more"
    unfolding more_def by simp
  have so: "scan_once m (iterencode L (json_of_entry e0) @ 44 # newline_indent L @ more) =
      Inr (json_of_entry e0, 44 # newline_indent L @ more)"
    using sc m6 by (rule scan_once_entry)
  have w1: "skip_whitespace (44 # newline_indent L @ more) = 44 # newline_indent L @ more"
    by (rule skip_whitespace_stop) (simp add: is_whitespace_def)
  obtain t where t: "more = 123 # t"
    unfolding more_def
    using join_entry_head [of "44 # newline_indent L" L e1 es1 "newline_indent L' @ 93 # rest"]
    by blast
  have "skip_whitespace (123 # t) = 123 # t"
    by (rule skip_whitespace_stop) (simp add: is_whitespace_def)
  then have w2: "skip_whitespace (newline_indent L @ more) = more"
    unfolding skip_whitespace_indent t .
  have ih: "parse_array m more = Inr (map json_of_entry (e1 # es1), rest)"
    unfolding more_def using rest_sc m by (rule Cons.IH)
  have ih2: "parse_array m (skip_whitespace (newline_indent L @ more)) =
      Inr (map json_of_entry (e1 # es1), rest)"
    by (simp only: w2 ih)
  have "parse_array (Suc m) (iterencode L (json_of_entry e0) @ 44 # newline_indent L @ more) =
      Inr (json_of_entry e0 # map json_of_entry (e1 # es1), rest)"
    using so w1 ih2 by (rule parse_array_more)
  then show ?case unfolding n split_text by simp
qed

lemma entry_of_json_of_entry: "entry_of_json (json_of_entry e) = Some e"
  by (simp add: entry_of_json_def json_of_entry_def get_str_def str_of_def)

lemma entries_of_json_of_entries: "entries_of_json (json_of_entries es) = Some es"
proof -
  have "those (map entry_of_json (map json_of_entry es)) = Some es"
    by (induction es) (simp_all add: entry_of_json_of_entry)
  then show ?thesis by (simp add: entries_of_json_def json_of_entries_def)
qed

lemma length_join: "\<forall>x\<in>set xs. x \<noteq> [] \<Longrightarrow> length xs \<le> length (join sep xs)"
proof (induction xs)
  case Nil
  then show ?case by simp
next
  case (Cons x xs)
  then have x: "1 \<le> length x" by (cases x) simp_all
  from Cons have ih: "length xs \<le> length (join sep xs)" by simp
  show ?case
  proof (cases xs)
    case Nil
    with x show ?thesis by simp
  next
    case (Cons y ys)
    with x ih show ?thesis by simp
  qed
qed

lemma json_loads_entries:
  assumes "\<forall>e\<in>set es. scalar_entry e"
  shows "json_loads (iterencode 0 (json_of_entries es)) = Inr (json_of_entries es)"
proof (cases es)
  case Nil
  then show ?thesis
    by (simp add: json_loads_def json_of_entries_def starts_with_def str_of_def
        skip_whitespace_def is_whitespace_def)
next
  case (Cons e0 es')
  define items where "items = map (\<lambda>e. iterencode 1 (json_of_entry e)) (e0 # es')"
  define body where "body = join (44 # newline_indent 1) items @ newline_indent 0 @ [93]"
  define whole where "whole = 91 # newline_indent 1 @ body"
  have enc: "iterencode 0 (json_of_entries es) = whole"
    unfolding whole_def body_def items_def Cons json_of_entries_def by (simp add: comp_def)
  have "\<forall>x\<in>set items. x \<noteq> []" unfolding items_def by (auto simp: iterencode_entry)
  then have "length items \<le> length (join (44 # newline_indent 1) items)" by (rule length_join)
  then have fuel: "length es' + 7 \<le> length whole"
    unfolding whole_def body_def by (simp add: items_def newline_indent_def)
  from assms have sc: "\<forall>e\<in>set (e0 # es'). scalar_entry e" unfolding Cons .
  have pa: "parse_array (length whole) body = Inr (map json_of_entry (e0 # es'), [])"
    unfolding body_def items_def
    using parse_array_entries [OF sc fuel, of 1 0 "[]"] by simp
  obtain t where t: "body = 123 # t"
    unfolding body_def items_def
    using join_entry_head [of "44 # newline_indent 1" 1 e0 es' "newline_indent 0 @ [93]"]
    by blast
  have "skip_whitespace (123 # t) = 123 # t"
    by (rule skip_whitespace_stop) (simp add: is_whitespace_def)
  then have w: "skip_whitespace (newline_indent 1 @ body) = 123 # t"
    unfolding skip_whitespace_indent t .
  have "scan_once (Suc (length whole)) (91 # newline_indent 1 @ body) =
      Inr (JArray (map json_of_entry (e0 # es')), [])"
    using w pa [unfolded t] by (rule scan_once_array)
  then have so: "scan_once (Suc (length whole)) whole =
      Inr (JArray (map json_of_entry (e0 # es')), [])"
    by (simp only: whole_def [symmetric])
  have w0: "skip_whitespace whole = whole"
    unfolding whole_def by (rule skip_whitespace_stop) (simp add: is_whitespace_def)
  have sn: "skip_whitespace [] = []" by (simp add: skip_whitespace_def)
  have bom: "\<not> starts_with whole [65279]"
    unfolding whole_def by (simp add: starts_with_def)
  have "json_loads whole = Inr (JArray (map json_of_entry (e0 # es')))"
    unfolding json_loads_def
    by (simp only: bom if_False w0 so sum.case prod.case sn simp_thms if_True)
  then show ?thesis unfolding enc by (simp add: json_of_entries_def Cons)
qed

text \<open>
  Claim C10. For every sequence of entries whose fields are strings of Unicode scalar
  values, \<open>load_entries\<close> right after \<open>save_entries\<close> of the sequence decodes the file to
  the list of dictionaries that was saved, in the same order, from which the entries
  are read back unchanged.
\<close>

theorem store_round_trip:
  assumes "\<forall>e\<in>set entries. scalar_entry e"
  shows "\<exists>j. fst (load_entries_text (save_entries_text (json_of_entries entries) f)) = Inr j \<and>
           j = json_of_entries entries \<and> entries_of_json j = Some entries"
proof -
  have "fst (load_entries_text (save_entries_text (json_of_entries entries) f)) =
      json_loads (iterencode 0 (json_of_entries entries))"
    by (simp add: load_entries_text_def save_entries_text_def)
  also have "\<dots> = Inr (json_of_entries entries)"
    using assms by (rule json_loads_entries)
  finally show ?thesis by (simp add: entries_of_json_of_entries)
qed

theorem store_round_trip_witness:
  "scalar_entry \<lparr>discord_user_id = str_of ''7'', discord_tag = [233, 35, 49],
       uid = [65, 34, 128512, 10], timestamp = str_of ''2024-01-01T00:00:00''\<rparr> \<and>
   fst (load_entries_text (save_entries_text (json_of_entries
     [\<lparr>discord_user_id = str_of ''7'', discord_tag = [233, 35, 49],
       uid = [65, 34, 128512, 10], timestamp = str_of ''2024-01-01T00:00:00''\<rparr>]) None)) =
   Inr (json_of_entries
     [\<lparr>discord_user_id = str_of ''7'', discord_tag = [233, 35, 49],
       uid = [65, 34, 128512, 10], timestamp = str_of ''2024-01-01T00:00:00''\<rparr>])"
  using store_round_trip
    [of "[\<lparr>discord_user_id = str_of ''7'', discord_tag = [233, 35, 49],
       uid = [65, 34, 128512, 10], timestamp = str_of ''2024-01-01T00:00:00''\<rparr>]" None]
  by (simp add: scalar_entry_def scalar_def str_of_def)

text \<open>
  The hypothesis on the strings is needed: a high surrogate followed by a low surrogate
  is written as two escapes, which the decoder reads as one character.
\<close>

lemma surrogate_pair_not_preserved:
  "json_loads (iterencode 0 (JString [55296, 56320])) = Inr (JString [65536])"
  by (simp add: json_loads_def starts_with_def encode_basestring_ascii_def escape_char_def
      hex4_def hex_digit_def skip_whitespace_def is_whitespace_def decode_uXXXX_def
      hex_value_def push_char_def)

end
